theory Spec2Isabelle
  imports Complex_Main
begin

section \<open>The dashboard's WebSocket message handler\<close>

text \<open>
  The source is \<^verbatim>\<open>frontend/src/app/dashboard/page.tsx\<close>: the React component
  \<^verbatim>\<open>Dashboard\<close>, its two pieces of state \<^verbatim>\<open>transcripts\<close> and \<^verbatim>\<open>activeCalls\<close>, the
  handler \<^verbatim>\<open>ws.onmessage\<close> (lines 154 to 241) and the in-place sort of the
  transcript panel (lines 522 to 525).

  The handler receives what \<^verbatim>\<open>JSON.parse\<close> returns and TypeScript checks nothing at run
  time, so every property the handler reads may be absent: an absent property is \<open>None\<close>
  (JavaScript's \<^verbatim>\<open>undefined\<close>). Objects are read structurally, through the properties
  the handler names.
\<close>

subsection \<open>Data\<close>

text \<open>
  \<^verbatim>\<open>interface CallSession\<close>. The handler reads \<^verbatim>\<open>status\<close> only; \<^verbatim>\<open>participants\<close> and
  \<^verbatim>\<open>metadata\<close> (\<^verbatim>\<open>Record<string, any>\<close>) are carried along unread.
\<close>

record CallSession =
  session_call_id :: string
  status :: "string option"
  start_time :: string
  participants :: "(string \<times> string) list"
  metadata :: "(string \<times> string) list"

text \<open>
  \<^verbatim>\<open>interface TranscriptEntry\<close>, which is also the shape of \<^verbatim>\<open>message.data\<close>
  (\<^verbatim>\<open>data?: any\<close>): a \<^verbatim>\<open>transcript\<close> message pushes its \<^verbatim>\<open>data\<close> into the list as it is, and
  the \<^verbatim>\<open>call_status\<close> and \<^verbatim>\<open>call_removed\<close> cases read \<^verbatim>\<open>call_id\<close> and \<^verbatim>\<open>session\<close> from the
  same object. The field \<^verbatim>\<open>id\<close> is \<open>entry_id\<close> here.
\<close>

record TranscriptEntry =
  entry_id :: "string option"
  role :: "string option"
  transcript :: "string option"
  timestamp :: "string option"
  call_id :: "string option"
  confidence :: "real option"
  session :: "CallSession option"

text \<open>
  \<^verbatim>\<open>interface WebSocketMessage\<close>. The field \<^verbatim>\<open>type\<close> is \<open>msg_type\<close>, any string at run
  time; \<^verbatim>\<open>transcripts\<close> is \<open>msg_transcripts\<close>. A \<^verbatim>\<open>Record<string, CallSession>\<close> is a map
  from call ids to sessions.
\<close>

record WebSocketMessage =
  msg_type :: "string option"
  data :: "TranscriptEntry option"
  msg_transcripts :: "TranscriptEntry list option"
  active_calls :: "(string \<rightharpoonup> CallSession) option"

text \<open>
  What \<^verbatim>\<open>JSON.parse(event.data)\<close> yields: it throws a \<^verbatim>\<open>SyntaxError\<close> on text that is not
  JSON (\<open>Inl SyntaxError\<close>), and otherwise returns the document: \<^verbatim>\<open>null\<close>, or a value whose
  properties the handler reads (a number, string or array has none of them, and is a
  message with every field absent).
\<close>

datatype js_error = SyntaxError | TypeError

datatype parsed = JsNull | JsObject WebSocketMessage

text \<open>
  The component's state: \<^verbatim>\<open>useState<TranscriptEntry[]>([])\<close> and
  \<^verbatim>\<open>useState<Record<string, CallSession>>({})\<close>. The other state of the component
  (connection status, statistics, the "cleared" banner and its timers) is display only
  and no handler case reads it.
\<close>

record state =
  transcripts :: "TranscriptEntry list"
  activeCalls :: "string \<rightharpoonup> CallSession"

definition initial :: state where
  "initial = \<lparr>transcripts = [], activeCalls = Map.empty\<rparr>"

subsection \<open>The built-ins the handler calls\<close>

text \<open>
  \<^verbatim>\<open>new Date(x.timestamp).getTime()\<close>. The time value of a date is a whole number of
  milliseconds since the epoch, or \<^verbatim>\<open>NaN\<close> for text that is no date and for \<^verbatim>\<open>undefined\<close>;
  \<open>None\<close> is \<^verbatim>\<open>NaN\<close>. How text is read as a date belongs to the JavaScript engine and
  is the parameter \<open>parse\<close>.
\<close>

definition getTime :: "(string \<Rightarrow> int option) \<Rightarrow> TranscriptEntry \<Rightarrow> int option" where
  "getTime parse x = (case timestamp x of None \<Rightarrow> None | Some s \<Rightarrow> parse s)"

text \<open>
  The comparator of both sorts,
  \<^verbatim>\<open>(a, b) => new Date(a.timestamp).getTime() - new Date(b.timestamp).getTime()\<close>.
  A difference with \<^verbatim>\<open>NaN\<close> is \<^verbatim>\<open>NaN\<close>, which \<^verbatim>\<open>Array.prototype.sort\<close> reads as \<open>0\<close>.
\<close>

definition compare :: "(string \<Rightarrow> int option) \<Rightarrow> TranscriptEntry \<Rightarrow> TranscriptEntry \<Rightarrow> int" where
  "compare parse a b =
     (case getTime parse a of
        None \<Rightarrow> 0
      | Some x \<Rightarrow> (case getTime parse b of None \<Rightarrow> 0 | Some y \<Rightarrow> x - y))"

text \<open>
  \<^verbatim>\<open>Array.prototype.sort(comparefn)\<close>: a stable sort (ECMAScript 2019). For a consistent
  comparator the result is the one stable arrangement, computed here by insertion. Where
  a timestamp is \<^verbatim>\<open>NaN\<close> the comparator is not consistent and the order is the engine's
  own choice, which this definition does not reproduce: there it stands for the engine's
  sort only in that the result is a permutation of the array. The results below use the
  order where every timestamp is a date, and the length and the elements elsewhere.
\<close>

fun insert_by :: "('a \<Rightarrow> 'a \<Rightarrow> int) \<Rightarrow> 'a \<Rightarrow> 'a list \<Rightarrow> 'a list" where
  "insert_by cmp x [] = [x]"
| "insert_by cmp x (y # ys) = (if cmp x y \<le> 0 then x # y # ys else y # insert_by cmp x ys)"

definition array_sort :: "('a \<Rightarrow> 'a \<Rightarrow> int) \<Rightarrow> 'a list \<Rightarrow> 'a list" where
  "array_sort cmp xs = foldr (insert_by cmp) xs []"

text \<open>\<^verbatim>\<open>Array.prototype.findIndex\<close>: the first index whose element satisfies \<open>P\<close>, or \<open>-1\<close>.\<close>

fun findIndex :: "('a \<Rightarrow> bool) \<Rightarrow> 'a list \<Rightarrow> int" where
  "findIndex P [] = -1"
| "findIndex P (x # xs) =
     (if P x then 0 else (let r = findIndex P xs in if r < 0 then -1 else r + 1))"

text \<open>\<^verbatim>\<open>arr.filter((element, index, arr) => ...)\<close>: the callback sees the index too.\<close>

definition filter_indexed :: "('a \<Rightarrow> nat \<Rightarrow> 'a list \<Rightarrow> bool) \<Rightarrow> 'a list \<Rightarrow> 'a list" where
  "filter_indexed f arr =
     map fst (filter (\<lambda>(x, i). f x i arr) (zip arr [0..<length arr]))"

text \<open>\<^verbatim>\<open>arr.slice(-n)\<close> for a positive \<open>n\<close>: the last \<open>n\<close> elements, all of them when there are fewer.\<close>

definition slice_last :: "nat \<Rightarrow> 'a list \<Rightarrow> 'a list" where
  "slice_last n arr = drop (length arr - n) arr"

text \<open>
  \<^verbatim>\<open>String.prototype.toLowerCase\<close>, on the letters A to Z. No character outside them
  lowers to a letter of \<^verbatim>\<open>ended\<close> or \<^verbatim>\<open>failed\<close>, the two words the result is compared to.
\<close>

definition lower_char :: "char \<Rightarrow> char" where
  "lower_char c =
     (case map_of (zip ''ABCDEFGHIJKLMNOPQRSTUVWXYZ'' ''abcdefghijklmnopqrstuvwxyz'') c of
        None \<Rightarrow> c
      | Some l \<Rightarrow> l)"

definition toLowerCase :: "string \<Rightarrow> string" where
  "toLowerCase s = map lower_char s"

text \<open>
  A computed property name \<^verbatim>\<open>[message.data.call_id]\<close>: the string itself, and the text
  \<^verbatim>\<open>undefined\<close> for an absent \<^verbatim>\<open>call_id\<close>.
\<close>

definition property_key :: "string option \<Rightarrow> string" where
  "property_key k = (case k of None \<Rightarrow> ''undefined'' | Some s \<Rightarrow> s)"

subsection \<open>The cases of the handler\<close>

text \<open>
  \<^verbatim>\<open>case 'initial_data'\<close> (lines 159 to 174): sort by time, keep each element whose
  index is the first index of its id, store the result; then store \<^verbatim>\<open>active_calls\<close>.
  An array and an object are truthy, also when empty.
\<close>

definition uniqueTranscripts :: "(string \<Rightarrow> int option) \<Rightarrow> TranscriptEntry list \<Rightarrow> TranscriptEntry list" where
  "uniqueTranscripts parse ts =
     filter_indexed
       (\<lambda>transcript index arr. int index = findIndex (\<lambda>t. entry_id t = entry_id transcript) arr)
       (array_sort (compare parse) ts)"

definition on_initial_data :: "(string \<Rightarrow> int option) \<Rightarrow> WebSocketMessage \<Rightarrow> state \<Rightarrow> js_error + state" where
  "on_initial_data parse message st =
     (let st1 = (case msg_transcripts message of
                   None \<Rightarrow> st
                 | Some ts \<Rightarrow> st\<lparr>transcripts := uniqueTranscripts parse ts\<rparr>);
          st2 = (case active_calls message of
                   None \<Rightarrow> st1
                 | Some calls \<Rightarrow> st1\<lparr>activeCalls := calls\<rparr>)
      in Inr st2)"

text \<open>
  \<^verbatim>\<open>case 'transcript'\<close> (lines 176 to 194). The callback of \<^verbatim>\<open>prev.some\<close> is \<open>same_entry\<close>:
  \<^verbatim>\<open>Math.abs(NaN) < 1000\<close> is false.
\<close>

definition same_entry :: "(string \<Rightarrow> int option) \<Rightarrow> TranscriptEntry \<Rightarrow> TranscriptEntry \<Rightarrow> bool" where
  "same_entry parse d t =
     (entry_id t = entry_id d \<or>
      (transcript t = transcript d \<and> role t = role d \<and>
       (case getTime parse t of
          None \<Rightarrow> False
        | Some x \<Rightarrow> (case getTime parse d of None \<Rightarrow> False | Some y \<Rightarrow> \<bar>x - y\<bar> < 1000))))"

definition on_transcript :: "(string \<Rightarrow> int option) \<Rightarrow> WebSocketMessage \<Rightarrow> state \<Rightarrow> js_error + state" where
  "on_transcript parse message st =
     (case data message of
        None \<Rightarrow> Inr st
      | Some d \<Rightarrow>
          (let prev = transcripts st;
               exists = list_ex (same_entry parse d) prev
           in Inr (st\<lparr>transcripts := (if exists then prev else slice_last 50 (prev @ [d]))\<rparr>)))"

text \<open>
  \<^verbatim>\<open>case 'call_status'\<close> (lines 196 to 213). \<^verbatim>\<open>message.data.session.status.toLowerCase()\<close>
  is evaluated first and throws a \<^verbatim>\<open>TypeError\<close> when \<^verbatim>\<open>session\<close> or \<^verbatim>\<open>status\<close> is absent,
  before any state is set.
\<close>

definition on_call_status :: "WebSocketMessage \<Rightarrow> state \<Rightarrow> js_error + state" where
  "on_call_status message st =
     (case data message of
        None \<Rightarrow> Inr st
      | Some d \<Rightarrow>
          (case session d of
             None \<Rightarrow> Inl TypeError
           | Some s \<Rightarrow>
               (case status s of
                  None \<Rightarrow> Inl TypeError
                | Some v \<Rightarrow>
                    (let callStatus = toLowerCase v;
                         st1 = st\<lparr>activeCalls := (activeCalls st)(property_key (call_id d) \<mapsto> s)\<rparr>
                     in Inr (if callStatus = ''ended'' \<or> callStatus = ''failed''
                             then st1\<lparr>transcripts := []\<rparr>
                             else st1)))))"

text \<open>
  \<^verbatim>\<open>case 'call_removed'\<close> (lines 215 to 229). The guard \<^verbatim>\<open>message.data?.call_id\<close> is
  truthy for a present, non-empty string.
\<close>

definition on_call_removed :: "WebSocketMessage \<Rightarrow> state \<Rightarrow> js_error + state" where
  "on_call_removed message st =
     (case data message of
        None \<Rightarrow> Inr st
      | Some d \<Rightarrow>
          (case call_id d of
             None \<Rightarrow> Inr st
           | Some c \<Rightarrow>
               (if c = [] then Inr st
                else Inr (st\<lparr>activeCalls := (activeCalls st)(c := None), transcripts := []\<rparr>))))"

text \<open>\<^verbatim>\<open>case 'transcripts_cleared'\<close> (lines 231 to 236).\<close>

definition on_transcripts_cleared :: "state \<Rightarrow> js_error + state" where
  "on_transcripts_cleared st = Inr (st\<lparr>transcripts := []\<rparr>)"

subsection \<open>The handler\<close>

text \<open>
  The body of the \<^verbatim>\<open>try\<close> after \<^verbatim>\<open>JSON.parse\<close>: \<^verbatim>\<open>message.type\<close> throws on \<^verbatim>\<open>null\<close>; the
  \<^verbatim>\<open>switch\<close> has five cases and no default.
\<close>

definition dispatch :: "(string \<Rightarrow> int option) \<Rightarrow> parsed \<Rightarrow> state \<Rightarrow> js_error + state" where
  "dispatch parse v st =
     (case v of
        JsNull \<Rightarrow> Inl TypeError
      | JsObject message \<Rightarrow>
          (case msg_type message of
             None \<Rightarrow> Inr st
           | Some t \<Rightarrow>
               (if t = ''initial_data'' then on_initial_data parse message st
                else if t = ''transcript'' then on_transcript parse message st
                else if t = ''call_status'' then on_call_status message st
                else if t = ''call_removed'' then on_call_removed message st
                else if t = ''transcripts_cleared'' then on_transcripts_cleared st
                else Inr st)))"

text \<open>
  \<^verbatim>\<open>ws.onmessage\<close>: the \<^verbatim>\<open>catch\<close> logs the error and returns. Every throw of the body
  comes before the first state setter of its case, so a caught error leaves the state as
  it was. The argument is the outcome of \<^verbatim>\<open>JSON.parse\<close> on the frame.
\<close>

definition onmessage :: "(string \<Rightarrow> int option) \<Rightarrow> js_error + parsed \<Rightarrow> state \<Rightarrow> state" where
  "onmessage parse frame st =
     (case frame of
        Inl e \<Rightarrow> st
      | Inr v \<Rightarrow> (case dispatch parse v st of Inl e \<Rightarrow> st | Inr st' \<Rightarrow> st'))"

text \<open>
  A render of the component (lines 522 to 525) calls \<^verbatim>\<open>transcripts.sort(...)\<close> on the
  state array itself: \<^verbatim>\<open>sort\<close> works in place, so the array the next updater receives as
  \<^verbatim>\<open>prev\<close> is the sorted one. React renders after a state change, and may handle several
  messages before it does.
\<close>

definition render :: "(string \<Rightarrow> int option) \<Rightarrow> state \<Rightarrow> state" where
  "render parse st = st\<lparr>transcripts := array_sort (compare parse) (transcripts st)\<rparr>"

datatype event = Message "js_error + parsed" | Render

fun step :: "(string \<Rightarrow> int option) \<Rightarrow> state \<Rightarrow> event \<Rightarrow> state" where
  "step parse st (Message frame) = onmessage parse frame st"
| "step parse st Render = render parse st"

definition run :: "(string \<Rightarrow> int option) \<Rightarrow> event list \<Rightarrow> state \<Rightarrow> state" where
  "run parse evs st = foldl (step parse) st evs"

text \<open>The messages of a schedule, in order.\<close>

fun messages :: "event list \<Rightarrow> (js_error + parsed) list" where
  "messages [] = []"
| "messages (Message frame # evs) = frame # messages evs"
| "messages (Render # evs) = messages evs"

subsection \<open>Frames and example data\<close>

text \<open>
  \<open>clock\<close> reads the four ISO strings of the examples as the engine does (their
  milliseconds since the epoch); the examples give it no other text.
\<close>

definition clock :: "string \<Rightarrow> int option" where
  "clock = map_of
     [(''1970-01-01T00:00:00.000Z'', 0),
      (''1970-01-01T00:00:00.500Z'', 500),
      (''1970-01-01T00:00:05.000Z'', 5000),
      (''1970-01-01T00:00:10.000Z'', 10000)]"

text \<open>A transcript fragment of call \<^verbatim>\<open>c1\<close> with confidence 0.9, and a session snapshot.\<close>

definition fragment :: "string \<Rightarrow> string \<Rightarrow> string \<Rightarrow> string \<Rightarrow> TranscriptEntry" where
  "fragment i r txt ts =
     \<lparr>entry_id = Some i, role = Some r, transcript = Some txt, timestamp = Some ts,
      call_id = Some ''c1'', confidence = Some (9 / 10), session = None\<rparr>"

definition session_with :: "string \<Rightarrow> string \<Rightarrow> CallSession" where
  "session_with c s =
     \<lparr>session_call_id = c, status = Some s, start_time = ''1970-01-01T00:00:00.000Z'',
      participants = [], metadata = []\<rparr>"

text \<open>
  Frames as the backend sends them: \<^verbatim>\<open>{type, data}\<close> for the single-payload messages,
  \<^verbatim>\<open>{type, transcripts, active_calls}\<close> for \<^verbatim>\<open>initial_data\<close>, and \<open>bare_frame\<close> for a
  message with a type and nothing else.
\<close>

definition transcript_frame :: "TranscriptEntry \<Rightarrow> js_error + parsed" where
  "transcript_frame d =
     Inr (JsObject \<lparr>msg_type = Some ''transcript'', data = Some d,
                    msg_transcripts = None, active_calls = None\<rparr>)"

definition call_data :: "string option \<Rightarrow> CallSession option \<Rightarrow> TranscriptEntry" where
  "call_data c s =
     \<lparr>entry_id = None, role = None, transcript = None, timestamp = None,
      call_id = c, confidence = None, session = s\<rparr>"

definition call_status_frame :: "string \<Rightarrow> CallSession \<Rightarrow> js_error + parsed" where
  "call_status_frame c s =
     Inr (JsObject \<lparr>msg_type = Some ''call_status'', data = Some (call_data (Some c) (Some s)),
                    msg_transcripts = None, active_calls = None\<rparr>)"

definition call_removed_frame :: "string \<Rightarrow> js_error + parsed" where
  "call_removed_frame c =
     Inr (JsObject \<lparr>msg_type = Some ''call_removed'', data = Some (call_data (Some c) None),
                    msg_transcripts = None, active_calls = None\<rparr>)"

definition bare_frame :: "string \<Rightarrow> js_error + parsed" where
  "bare_frame t =
     Inr (JsObject \<lparr>msg_type = Some t, data = None, msg_transcripts = None, active_calls = None\<rparr>)"

definition initial_data_frame :: "TranscriptEntry list \<Rightarrow> (string \<rightharpoonup> CallSession) \<Rightarrow> js_error + parsed" where
  "initial_data_frame ts calls =
     Inr (JsObject \<lparr>msg_type = Some ''initial_data'', data = None,
                    msg_transcripts = Some ts, active_calls = Some calls\<rparr>)"

text \<open>A state with one retained record and one active call.\<close>

definition busy :: state where
  "busy = \<lparr>transcripts = [fragment ''a1'' ''user'' ''hello'' ''1970-01-01T00:00:00.000Z''],
           activeCalls = [''c1'' \<mapsto> session_with ''c1'' ''active'']\<rparr>"

text \<open>
  Fragment number \<open>i\<close>, with an id and a text of \<open>i + 1\<close> letters, so that no two of them
  are duplicates of each other. \<open>late\<close> delivers the oldest fragment last: fragments 0 to
  49 are stamped 10 s and fragment 50 is stamped 0 s. \<open>early\<close> delivers in time order:
  fragment 0 is stamped 0 s and the others 10 s.
\<close>

definition numbered :: "nat \<Rightarrow> string \<Rightarrow> TranscriptEntry" where
  "numbered i ts =
     fragment (replicate (Suc i) (CHR ''x'')) ''user'' (replicate (Suc i) (CHR ''w'')) ts"

definition late :: "nat \<Rightarrow> TranscriptEntry" where
  "late i =
     numbered i (if i < 50 then ''1970-01-01T00:00:10.000Z'' else ''1970-01-01T00:00:00.000Z'')"

definition early :: "nat \<Rightarrow> TranscriptEntry" where
  "early i =
     numbered i (if i = 0 then ''1970-01-01T00:00:00.000Z'' else ''1970-01-01T00:00:10.000Z'')"

text \<open>
  Two schedules for a list of fragments, one \<^verbatim>\<open>transcript\<close> message each: with no render
  between the messages, and with a render after every message.
\<close>

definition unrendered :: "TranscriptEntry list \<Rightarrow> event list" where
  "unrendered fs = map (\<lambda>f. Message (transcript_frame f)) fs"

definition rendered :: "TranscriptEntry list \<Rightarrow> event list" where
  "rendered fs = concat (map (\<lambda>f. [Message (transcript_frame f), Render]) fs)"

text \<open>A snapshot out of time order in which the id \<^verbatim>\<open>b1\<close> occurs twice, and a schedule that uses it.\<close>

definition snapshot :: "TranscriptEntry list" where
  "snapshot =
     [fragment ''b2'' ''assistant'' ''where are you'' ''1970-01-01T00:00:05.000Z'',
      fragment ''b1'' ''user'' ''help'' ''1970-01-01T00:00:00.000Z'',
      fragment ''b1'' ''user'' ''help'' ''1970-01-01T00:00:10.000Z'']"

definition session_log :: "event list" where
  "session_log =
     [Message (initial_data_frame snapshot Map.empty), Render,
      Message (transcript_frame (fragment ''b3'' ''user'' ''hurry'' ''1970-01-01T00:00:10.000Z'')),
      Message (Inl SyntaxError), Render,
      Message (call_status_frame ''c1'' (session_with ''c1'' ''active''))]"

section \<open>What each message does to the state\<close>

text \<open>One equation per case of the \<^verbatim>\<open>switch\<close>, with the \<^verbatim>\<open>try\<close> and \<^verbatim>\<open>catch\<close> resolved.\<close>

lemma toLowerCase_ended:
  "toLowerCase ''ended'' = ''ended''"
  "toLowerCase ''failed'' = ''failed''"
  "toLowerCase ''active'' = ''active''"
  by (simp_all add: toLowerCase_def lower_char_def)

lemma onmessage_syntax_error: "onmessage parse (Inl e) st = st"
  by (simp add: onmessage_def)

lemma onmessage_null: "onmessage parse (Inr JsNull) st = st"
  by (simp add: onmessage_def dispatch_def)

lemma onmessage_unknown:
  "msg_type m \<notin> Some ` {''initial_data'', ''transcript'', ''call_status'', ''call_removed'',
      ''transcripts_cleared''} \<Longrightarrow>
   onmessage parse (Inr (JsObject m)) st = st"
  by (auto simp add: onmessage_def dispatch_def split: option.splits)

lemma onmessage_initial_data:
  "msg_type m = Some ''initial_data'' \<Longrightarrow>
   onmessage parse (Inr (JsObject m)) st =
     (let st1 = (case msg_transcripts m of
                   None \<Rightarrow> st
                 | Some ts \<Rightarrow> st\<lparr>transcripts := uniqueTranscripts parse ts\<rparr>)
      in (case active_calls m of None \<Rightarrow> st1 | Some calls \<Rightarrow> st1\<lparr>activeCalls := calls\<rparr>))"
  by (simp add: onmessage_def dispatch_def on_initial_data_def Let_def split: option.splits)

lemma onmessage_transcript:
  "msg_type m = Some ''transcript'' \<Longrightarrow>
   onmessage parse (Inr (JsObject m)) st =
     (case data m of
        None \<Rightarrow> st
      | Some d \<Rightarrow>
          st\<lparr>transcripts :=
               (if list_ex (same_entry parse d) (transcripts st) then transcripts st
                else slice_last 50 (transcripts st @ [d]))\<rparr>)"
  by (simp add: onmessage_def dispatch_def on_transcript_def Let_def split: option.splits)

lemma onmessage_call_status:
  "msg_type m = Some ''call_status'' \<Longrightarrow>
   onmessage parse (Inr (JsObject m)) st =
     (case data m of
        None \<Rightarrow> st
      | Some d \<Rightarrow>
          (case session d of
             None \<Rightarrow> st
           | Some s \<Rightarrow>
               (case status s of
                  None \<Rightarrow> st
                | Some v \<Rightarrow>
                    if toLowerCase v = ''ended'' \<or> toLowerCase v = ''failed''
                    then st\<lparr>activeCalls := (activeCalls st)(property_key (call_id d) \<mapsto> s),
                            transcripts := []\<rparr>
                    else st\<lparr>activeCalls := (activeCalls st)(property_key (call_id d) \<mapsto> s)\<rparr>)))"
  by (simp add: onmessage_def dispatch_def on_call_status_def Let_def split: option.splits)

lemma onmessage_call_removed:
  "msg_type m = Some ''call_removed'' \<Longrightarrow>
   onmessage parse (Inr (JsObject m)) st =
     (case data m of
        None \<Rightarrow> st
      | Some d \<Rightarrow>
          (case call_id d of
             None \<Rightarrow> st
           | Some c \<Rightarrow>
               if c = [] then st
               else st\<lparr>activeCalls := (activeCalls st)(c := None), transcripts := []\<rparr>))"
  by (simp add: onmessage_def dispatch_def on_call_removed_def split: option.splits)

lemma onmessage_transcripts_cleared:
  "msg_type m = Some ''transcripts_cleared'' \<Longrightarrow>
   onmessage parse (Inr (JsObject m)) st = st\<lparr>transcripts := []\<rparr>"
  by (simp add: onmessage_def dispatch_def on_transcripts_cleared_def)

lemma onmessage_transcript_frame:
  "onmessage parse (transcript_frame g) st =
     st\<lparr>transcripts :=
          (if list_ex (same_entry parse g) (transcripts st) then transcripts st
           else slice_last 50 (transcripts st @ [g]))\<rparr>"
  by (simp add: transcript_frame_def onmessage_transcript)

text \<open>The body of the \<^verbatim>\<open>try\<close> throws nothing but a \<^verbatim>\<open>TypeError\<close>.\<close>

lemma dispatch_throws: "dispatch parse v st = Inl err \<Longrightarrow> err = TypeError"
  by (auto simp add: dispatch_def on_initial_data_def on_transcript_def on_call_status_def
      on_call_removed_def on_transcripts_cleared_def Let_def
      split: parsed.splits option.splits if_splits)

lemma same_entry_iff:
  "same_entry parse f t \<longleftrightarrow>
     entry_id t = entry_id f \<or>
     (role t = role f \<and> transcript t = transcript f \<and>
      (\<exists>x y. getTime parse t = Some x \<and> getTime parse f = Some y \<and> \<bar>x - y\<bar> < 1000))"
  by (cases "getTime parse t"; cases "getTime parse f") (auto simp add: same_entry_def)

subsection \<open>Slices\<close>

lemma length_slice_last: "length (slice_last n xs) = min n (length xs)"
  by (auto simp add: slice_last_def)

lemma in_slice_last: "0 < n \<Longrightarrow> x \<in> set (slice_last n (xs @ [x]))"
  by (simp add: slice_last_def)

lemma set_slice_last: "set (slice_last n xs) \<subseteq> set xs"
  by (simp add: slice_last_def set_drop_subset)

lemma slice_last_long: "n \<le> length ys \<Longrightarrow> slice_last n (xs @ ys) = drop (length ys - n) ys"
  by (simp add: slice_last_def)

lemma slice_last_append_drop: "slice_last n ys @ gs = drop (length ys - n) (ys @ gs)"
  by (simp add: slice_last_def)

lemma slice_last_append: "slice_last n (slice_last n xs @ ys) = slice_last n (xs @ ys)"
proof (cases "length xs \<le> n")
  case True
  then show ?thesis by (simp add: slice_last_def)
next
  case False
  then have "length xs - (length xs - n) + length ys - n = length ys"
    by simp
  moreover have "length xs + length ys - n = length ys + (length xs - n)"
    using False by simp
  ultimately show ?thesis
    using False by (simp add: slice_last_def)
qed

lemma sorted_slice_last_append:
  assumes "sorted (map f (xs @ g # gs))"
  shows "sorted (map f (slice_last n (xs @ [g]) @ gs))"
proof -
  have "sorted (map f ((xs @ [g]) @ gs))"
    using assms by simp
  then have "sorted (drop (length (xs @ [g]) - n) (map f ((xs @ [g]) @ gs)))"
    by (rule sorted_wrt_drop)
  then show ?thesis
    by (simp only: slice_last_append_drop drop_map)
qed

subsection \<open>The sort\<close>

lemma length_insert_by: "length (insert_by cmp x ys) = Suc (length ys)"
  by (induction ys) simp_all

lemma set_insert_by: "set (insert_by cmp x ys) = insert x (set ys)"
  by (induction ys) auto

lemma length_array_sort: "length (array_sort cmp xs) = length xs"
  by (induction xs) (simp_all add: array_sort_def length_insert_by)

lemma set_array_sort: "set (array_sort cmp xs) = set xs"
  by (induction xs) (simp_all add: array_sort_def set_insert_by)

lemma compare_valid:
  "getTime parse a = Some x \<Longrightarrow> getTime parse b = Some y \<Longrightarrow> compare parse a b = x - y"
  by (simp add: compare_def)

text \<open>
  Where every timestamp is a date, the comparator is the order of the times and the sort
  is the stable sort by time, \<open>sort_key\<close>.
\<close>

lemma insert_by_insort_key:
  assumes "getTime parse x \<noteq> None" and "\<forall>y\<in>set ys. getTime parse y \<noteq> None"
  shows "insert_by (compare parse) x ys = insort_key (\<lambda>t. the (getTime parse t)) x ys"
  using assms
proof (induction ys)
  case Nil
  then show ?case by simp
next
  case (Cons y ys)
  then obtain a b where "getTime parse x = Some a" "getTime parse y = Some b"
    by auto
  with Cons show ?case by (simp add: compare_valid)
qed

lemma array_sort_sort_key:
  assumes "\<forall>t\<in>set ts. getTime parse t \<noteq> None"
  shows "array_sort (compare parse) ts = sort_key (\<lambda>t. the (getTime parse t)) ts"
  using assms
proof (induction ts)
  case Nil
  then show ?case by (simp add: array_sort_def)
next
  case (Cons t ts)
  then have "array_sort (compare parse) ts = sort_key (\<lambda>t. the (getTime parse t)) ts"
    by simp
  moreover have "\<forall>y\<in>set (sort_key (\<lambda>t. the (getTime parse t)) ts). getTime parse y \<noteq> None"
    using Cons.prems by simp
  ultimately show ?case
    using Cons.prems by (simp add: array_sort_def insert_by_insort_key)
qed

lemma array_sort_sorted_id:
  assumes "\<forall>t\<in>set xs. getTime parse t \<noteq> None"
    and "sorted (map (\<lambda>t. the (getTime parse t)) xs)"
  shows "array_sort (compare parse) xs = xs"
  using assms by (simp add: array_sort_sort_key sort_key_id_if_sorted)

subsection \<open>The first index of an id\<close>

lemma findIndex_range:
  "findIndex P xs = -1 \<or> (0 \<le> findIndex P xs \<and> findIndex P xs < int (length xs))"
  by (induction xs) (auto simp add: Let_def)

lemma findIndex_first:
  "i < length xs \<Longrightarrow> (findIndex P xs = int i) = (P (xs ! i) \<and> (\<forall>j<i. \<not> P (xs ! j)))"
proof (induction xs arbitrary: i)
  case Nil
  then show ?case by simp
next
  case (Cons x xs)
  show ?case
  proof (cases i)
    case 0
    then show ?thesis using findIndex_range [of P xs] by (auto simp add: Let_def)
  next
    case (Suc k)
    with Cons.prems have k: "k < length xs" by simp
    have "(\<forall>j<Suc k. \<not> P ((x # xs) ! j)) = (\<not> P x \<and> (\<forall>j<k. \<not> P (xs ! j)))"
      by (auto simp add: less_Suc_eq_0_disj)
    with Cons.IH [OF k] Suc show ?thesis
      using findIndex_range [of P xs] by (auto simp add: Let_def)
  qed
qed

lemma index_is_findIndex:
  "i < length xs \<Longrightarrow> (int i = findIndex P xs) = (P (xs ! i) \<and> (\<forall>j<i. \<not> P (xs ! j)))"
  using findIndex_first [of i xs P] by auto

lemma filter_indexed_nths:
  assumes "\<And>i. i < length arr \<Longrightarrow> f (arr ! i) i arr = (i \<in> A)"
  shows "filter_indexed f arr = nths arr A"
proof -
  have "filter (\<lambda>(x, i). f x i arr) (zip arr [0..<length arr]) =
        filter (\<lambda>p. snd p \<in> A) (zip arr [0..<length arr])"
  proof (rule filter_cong [OF refl])
    fix p assume "p \<in> set (zip arr [0..<length arr])"
    then obtain i where "i < length arr" "p = (arr ! i, i)"
      by (auto simp add: set_zip)
    with assms show "(case p of (x, i) \<Rightarrow> f x i arr) = (snd p \<in> A)" by simp
  qed
  then show ?thesis by (simp add: filter_indexed_def nths_def)
qed

lemma uniqueTranscripts_nths:
  "uniqueTranscripts parse ts =
     nths (array_sort (compare parse) ts)
       {i. \<forall>j<i. entry_id (array_sort (compare parse) ts ! j) \<noteq>
                  entry_id (array_sort (compare parse) ts ! i)}"
  unfolding uniqueTranscripts_def
  by (rule filter_indexed_nths) (simp add: index_is_findIndex)

lemma length_filter_indexed: "length (filter_indexed f arr) \<le> length arr"
proof -
  have "length (filter (\<lambda>(x, i). f x i arr) (zip arr [0..<length arr])) \<le>
        length (zip arr [0..<length arr])"
    by (rule length_filter_le)
  then show ?thesis by (simp add: filter_indexed_def)
qed

lemma length_uniqueTranscripts: "length (uniqueTranscripts parse ts) \<le> length ts"
  using length_filter_indexed [of _ "array_sort (compare parse) ts"]
  by (simp add: uniqueTranscripts_def length_array_sort)

section \<open>Schedules of messages and renders\<close>

lemma render_simps:
  "transcripts (render parse st) = array_sort (compare parse) (transcripts st)"
  "activeCalls (render parse st) = activeCalls st"
  by (simp_all add: render_def)

lemma run_Nil: "run parse [] st = st"
  by (simp add: run_def)

lemma run_Cons: "run parse (ev # evs) st = run parse evs (step parse st ev)"
  by (simp add: run_def)

lemma run_append: "run parse (pre @ post) st = run parse post (run parse pre st)"
  by (simp add: run_def)

lemma messages_Cons_split:
  "messages evs = f # fs \<Longrightarrow>
   \<exists>pre post. evs = pre @ Message f # post \<and> messages pre = [] \<and> messages post = fs"
proof (induction evs)
  case Nil
  then show ?case by simp
next
  case (Cons ev evs)
  show ?case
  proof (cases ev)
    case (Message g)
    with Cons.prems have "ev # evs = [] @ Message f # evs \<and> messages [] = [] \<and> messages evs = fs"
      by simp
    then show ?thesis by blast
  next
    case Render
    with Cons obtain pre post where "evs = pre @ Message f # post" "messages pre = []" "messages post = fs"
      by auto
    with Render have "ev # evs = (Render # pre) @ Message f # post \<and> messages (Render # pre) = [] \<and>
        messages post = fs"
      by simp
    then show ?thesis by blast
  qed
qed

text \<open>The length bound is kept by every message but an oversized snapshot, and by a render.\<close>

lemma length_onmessage:
  assumes "length (transcripts st) \<le> 50"
    and "\<And>m ts. frame = Inr (JsObject m) \<Longrightarrow> msg_type m = Some ''initial_data'' \<Longrightarrow>
           msg_transcripts m = Some ts \<Longrightarrow> length ts \<le> 50"
  shows "length (transcripts (onmessage parse frame st)) \<le> 50"
proof (cases frame)
  case (Inl e)
  with assms(1) show ?thesis by (simp add: onmessage_syntax_error)
next
  case (Inr v)
  show ?thesis
  proof (cases v)
    case JsNull
    with Inr assms(1) show ?thesis by (simp add: onmessage_null)
  next
    case (JsObject m)
    consider (init) "msg_type m = Some ''initial_data''"
      | (tr) "msg_type m = Some ''transcript''"
      | (cs) "msg_type m = Some ''call_status''"
      | (cr) "msg_type m = Some ''call_removed''"
      | (tc) "msg_type m = Some ''transcripts_cleared''"
      | (other) "msg_type m \<notin> Some ` {''initial_data'', ''transcript'', ''call_status'',
                   ''call_removed'', ''transcripts_cleared''}"
      by auto
    then show ?thesis
    proof cases
      case init
      show ?thesis
      proof (cases "msg_transcripts m")
        case None
        with init Inr JsObject assms(1) show ?thesis
          by (simp add: onmessage_initial_data Let_def split: option.splits)
      next
        case (Some ts)
        have "length (uniqueTranscripts parse ts) \<le> length ts"
          by (rule length_uniqueTranscripts)
        also have "length ts \<le> 50"
          using assms(2) Inr JsObject init Some by simp
        finally show ?thesis
          using init Inr JsObject Some
          by (simp add: onmessage_initial_data Let_def split: option.splits)
      qed
    next
      case tr
      with Inr JsObject assms(1) show ?thesis
        by (simp add: onmessage_transcript length_slice_last split: option.splits)
    next
      case cs
      with Inr JsObject assms(1) show ?thesis
        by (simp add: onmessage_call_status split: option.splits)
    next
      case cr
      with Inr JsObject assms(1) show ?thesis
        by (simp add: onmessage_call_removed split: option.splits)
    next
      case tc
      with Inr JsObject show ?thesis
        by (simp add: onmessage_transcripts_cleared)
    next
      case other
      with Inr JsObject assms(1) show ?thesis
        by (simp add: onmessage_unknown)
    qed
  qed
qed

lemma length_run:
  assumes "length (transcripts st) \<le> 50"
    and "\<forall>m ts. Inr (JsObject m) \<in> set (messages evs) \<and> msg_type m = Some ''initial_data'' \<and>
           msg_transcripts m = Some ts \<longrightarrow> length ts \<le> 50"
  shows "length (transcripts (run parse evs st)) \<le> 50"
  using assms
proof (induction evs arbitrary: st)
  case Nil
  then show ?case by (simp add: run_Nil)
next
  case (Cons ev evs)
  show ?case
  proof (cases ev)
    case (Message frame)
    have "length (transcripts (onmessage parse frame st)) \<le> 50"
      using Cons.prems Message by (intro length_onmessage) auto
    moreover have "\<forall>m ts. Inr (JsObject m) \<in> set (messages evs) \<and> msg_type m = Some ''initial_data'' \<and>
           msg_transcripts m = Some ts \<longrightarrow> length ts \<le> 50"
      using Cons.prems(2) Message by auto
    ultimately show ?thesis
      using Cons.IH Message by (simp add: run_Cons)
  next
    case Render
    have "length (transcripts (render parse st)) \<le> 50"
      using Cons.prems(1) by (simp add: render_simps length_array_sort)
    moreover have "\<forall>m ts. Inr (JsObject m) \<in> set (messages evs) \<and> msg_type m = Some ''initial_data'' \<and>
           msg_transcripts m = Some ts \<longrightarrow> length ts \<le> 50"
      using Cons.prems(2) Render by auto
    ultimately show ?thesis
      using Cons.IH Render by (simp add: run_Cons)
  qed
qed

lemma messages_take: "set (messages (take n evs)) \<subseteq> set (messages evs)"
proof (induction evs arbitrary: n)
  case Nil
  then show ?case by simp
next
  case (Cons ev evs)
  show ?case
  proof (cases n)
    case 0
    then show ?thesis by simp
  next
    case (Suc k)
    with Cons [of k] show ?thesis by (cases ev) auto
  qed
qed

text \<open>
  Fragments that are no duplicates of the retained records or of one another are all
  appended, under every schedule: the list is cut to its last 50 after each, and a render
  permutes it.
\<close>

lemma append_run:
  assumes "messages evs = map transcript_frame gs"
    and "\<forall>i<length gs. \<forall>t\<in>set (transcripts st) \<union> set (take i gs). \<not> same_entry parse (gs ! i) t"
  shows "length (transcripts (run parse evs st)) =
           (if gs = [] then length (transcripts st) else min 50 (length (transcripts st) + length gs)) \<and>
         set (transcripts (run parse evs st)) \<subseteq> set (transcripts st) \<union> set gs \<and>
         (gs = [] \<longrightarrow> set (transcripts (run parse evs st)) = set (transcripts st)) \<and>
         (gs \<noteq> [] \<longrightarrow> last gs \<in> set (transcripts (run parse evs st))) \<and>
         activeCalls (run parse evs st) = activeCalls st \<and>
         (Render \<notin> set evs \<longrightarrow>
            transcripts (run parse evs st) =
              (if gs = [] then transcripts st else slice_last 50 (transcripts st @ gs)))"
  using assms
proof (induction evs arbitrary: st gs)
  case Nil
  then show ?case by (simp add: run_Nil)
next
  case (Cons ev evs)
  show ?case
  proof (cases ev)
    case Render
    let ?st = "render parse st"
    have m: "messages evs = map transcript_frame gs"
      using Cons.prems(1) Render by simp
    have f: "\<forall>i<length gs. \<forall>t\<in>set (transcripts ?st) \<union> set (take i gs). \<not> same_entry parse (gs ! i) t"
      using Cons.prems(2) by (simp add: render_simps set_array_sort)
    from Cons.IH [OF m f] Render show ?thesis
      by (simp add: run_Cons render_simps set_array_sort length_array_sort)
  next
    case (Message frame)
    then obtain g gs' where gs: "gs = g # gs'" and frame: "frame = transcript_frame g"
      and m: "messages evs = map transcript_frame gs'"
      using Cons.prems(1) by (cases gs) auto
    let ?st = "onmessage parse frame st"
    have "\<forall>t\<in>set (transcripts st). \<not> same_entry parse g t"
      using Cons.prems(2) gs by auto
    then have "\<not> list_ex (same_entry parse g) (transcripts st)"
      by (simp add: list_ex_iff)
    then have st': "transcripts ?st = slice_last 50 (transcripts st @ [g])" "activeCalls ?st = activeCalls st"
      using frame by (simp_all add: onmessage_transcript_frame)
    have sub: "set (transcripts ?st) \<subseteq> insert g (set (transcripts st))"
      using set_slice_last [of 50 "transcripts st @ [g]"] st' by auto
    have f: "\<forall>i<length gs'. \<forall>t\<in>set (transcripts ?st) \<union> set (take i gs'). \<not> same_entry parse (gs' ! i) t"
    proof (intro allI impI ballI)
      fix i t assume i: "i < length gs'" and t: "t \<in> set (transcripts ?st) \<union> set (take i gs')"
      from t sub have "t \<in> set (transcripts st) \<union> set (take (Suc i) gs)"
        using gs by auto
      moreover have "Suc i < length gs" using i gs by simp
      ultimately have "\<not> same_entry parse (gs ! Suc i) t"
        using Cons.prems(2) by blast
      then show "\<not> same_entry parse (gs' ! i) t" using gs by simp
    qed
    note IH = Cons.IH [OF m f]
    have len: "length (transcripts ?st) = min 50 (Suc (length (transcripts st)))"
      using st' by (simp add: length_slice_last)
    have g_in: "g \<in> set (transcripts ?st)"
      using st' in_slice_last [of 50 g "transcripts st"] by simp
    have run: "run parse (ev # evs) st = run parse evs ?st"
      using Message by (simp add: run_Cons)
    have c1: "length (transcripts (run parse evs ?st)) = min 50 (length (transcripts st) + length gs)"
      using IH len gs by (auto simp add: min_def)
    have c2: "set (transcripts (run parse evs ?st)) \<subseteq> set (transcripts st) \<union> set gs"
      using IH sub gs by auto
    have c3: "last gs \<in> set (transcripts (run parse evs ?st))"
    proof (cases "gs' = []")
      case True
      then have "set (transcripts (run parse evs ?st)) = set (transcripts ?st)"
        using IH by simp
      with g_in True gs show ?thesis by simp
    next
      case False
      then show ?thesis using IH gs by simp
    qed
    have c4: "activeCalls (run parse evs ?st) = activeCalls st"
      using IH st' by simp
    have c5: "transcripts (run parse evs ?st) = slice_last 50 (transcripts st @ gs)" if "Render \<notin> set evs"
    proof (cases "gs' = []")
      case True
      with IH that st' gs show ?thesis by simp
    next
      case False
      with IH that have "transcripts (run parse evs ?st) = slice_last 50 (transcripts ?st @ gs')"
        by simp
      also have "\<dots> = slice_last 50 ((transcripts st @ [g]) @ gs')"
        unfolding st' by (rule slice_last_append)
      finally show ?thesis using gs by simp
    qed
    show ?thesis
      unfolding run using c1 c2 c3 c4 c5 gs Message by simp
  qed
qed

lemma run_renders:
  assumes "messages evs = []"
  shows "length (transcripts (run parse evs st)) = length (transcripts st) \<and>
         activeCalls (run parse evs st) = activeCalls st"
  using append_run [of evs "[]" st parse] assms by simp

text \<open>Where the list and the arrivals are in time order, a render changes nothing.\<close>

lemma append_run_sorted:
  assumes "messages evs = map transcript_frame gs"
    and "\<forall>i<length gs. \<forall>t\<in>set (transcripts st) \<union> set (take i gs). \<not> same_entry parse (gs ! i) t"
    and "\<forall>t\<in>set (transcripts st) \<union> set gs. getTime parse t \<noteq> None"
    and "sorted (map (\<lambda>t. the (getTime parse t)) (transcripts st @ gs))"
  shows "transcripts (run parse evs st) =
           (if gs = [] then transcripts st else slice_last 50 (transcripts st @ gs))"
  using assms
proof (induction evs arbitrary: st gs)
  case Nil
  then show ?case by (simp add: run_Nil)
next
  case (Cons ev evs)
  show ?case
  proof (cases ev)
    case Render
    have "sorted (map (\<lambda>t. the (getTime parse t)) (transcripts st))"
      using Cons.prems(4) by (simp add: sorted_append)
    then have "array_sort (compare parse) (transcripts st) = transcripts st"
      using Cons.prems(3) by (intro array_sort_sorted_id) auto
    then have "render parse st = st"
      by (simp add: render_def)
    moreover have "messages evs = map transcript_frame gs"
      using Cons.prems(1) Render by simp
    ultimately show ?thesis
      using Cons.IH [of gs st] Cons.prems(2,3,4) Render by (simp add: run_Cons)
  next
    case (Message frame)
    then obtain g gs' where gs: "gs = g # gs'" and frame: "frame = transcript_frame g"
      and m: "messages evs = map transcript_frame gs'"
      using Cons.prems(1) by (cases gs) auto
    let ?st = "onmessage parse frame st"
    have "\<forall>t\<in>set (transcripts st). \<not> same_entry parse g t"
      using Cons.prems(2) gs by auto
    then have "\<not> list_ex (same_entry parse g) (transcripts st)"
      by (simp add: list_ex_iff)
    then have st': "transcripts ?st = slice_last 50 (transcripts st @ [g])"
      using frame by (simp add: onmessage_transcript_frame)
    have sub: "set (transcripts ?st) \<subseteq> insert g (set (transcripts st))"
      using set_slice_last [of 50 "transcripts st @ [g]"] st' by auto
    have f: "\<forall>i<length gs'. \<forall>t\<in>set (transcripts ?st) \<union> set (take i gs'). \<not> same_entry parse (gs' ! i) t"
    proof (intro allI impI ballI)
      fix i t assume i: "i < length gs'" and t: "t \<in> set (transcripts ?st) \<union> set (take i gs')"
      from t sub have "t \<in> set (transcripts st) \<union> set (take (Suc i) gs)"
        using gs by auto
      moreover have "Suc i < length gs" using i gs by simp
      ultimately have "\<not> same_entry parse (gs ! Suc i) t"
        using Cons.prems(2) by blast
      then show "\<not> same_entry parse (gs' ! i) t" using gs by simp
    qed
    have v: "\<forall>t\<in>set (transcripts ?st) \<union> set gs'. getTime parse t \<noteq> None"
      using Cons.prems(3) sub gs by auto
    have s: "sorted (map (\<lambda>t. the (getTime parse t)) (transcripts ?st @ gs'))"
      unfolding st' using Cons.prems(4) gs by (intro sorted_slice_last_append) simp
    note IH = Cons.IH [OF m f v s]
    have "transcripts (run parse evs ?st) = slice_last 50 (transcripts st @ gs)"
    proof (cases "gs' = []")
      case True
      with IH st' gs show ?thesis by simp
    next
      case False
      with IH have "transcripts (run parse evs ?st) = slice_last 50 (transcripts ?st @ gs')"
        by simp
      also have "\<dots> = slice_last 50 ((transcripts st @ [g]) @ gs')"
        unfolding st' by (rule slice_last_append)
      finally show ?thesis using gs by simp
    qed
    then show ?thesis
      using gs Message by (simp add: run_Cons)
  qed
qed

text \<open>Removing the only call that can be in the mapping empties it.\<close>

lemma remove_only_call:
  "dom m \<subseteq> {c} \<Longrightarrow> (m(c \<mapsto> s))(c := None) = Map.empty"
  by (rule ext) auto

section \<open>Facts about the example data\<close>

lemma clock_simps:
  "clock ''1970-01-01T00:00:00.000Z'' = Some 0"
  "clock ''1970-01-01T00:00:00.500Z'' = Some 500"
  "clock ''1970-01-01T00:00:05.000Z'' = Some 5000"
  "clock ''1970-01-01T00:00:10.000Z'' = Some 10000"
  by (simp_all add: clock_def)

lemma messages_unrendered: "messages (unrendered fs) = map transcript_frame fs"
  by (induction fs) (simp_all add: unrendered_def)

lemma messages_rendered: "messages (rendered fs) = map transcript_frame fs"
  by (induction fs) (simp_all add: rendered_def)

lemma Render_unrendered: "Render \<notin> set (unrendered fs)"
  by (auto simp add: unrendered_def)

lemma same_entry_numbered: "i \<noteq> j \<Longrightarrow> \<not> same_entry parse (numbered i a) (numbered j b)"
  by (simp add: same_entry_def numbered_def fragment_def)

lemma early_fresh:
  "\<forall>i<length (map early [0..<n]).
     \<forall>t\<in>set (transcripts initial) \<union> set (take i (map early [0..<n])).
       \<not> same_entry parse (map early [0..<n] ! i) t"
  by (auto simp add: initial_def take_map early_def same_entry_numbered)

lemma getTime_early: "getTime clock (early i) = Some (if i = 0 then 0 else 10000)"
  by (simp add: early_def numbered_def fragment_def getTime_def clock_simps)

lemma sorted_early: "sorted (map (\<lambda>t. the (getTime clock t)) (map early [0..<n]))"
  by (simp add: getTime_early sorted_map sorted_wrt_iff_nth_less)

text \<open>The 51 fragments of \<open>late\<close>, run through the handler under both schedules.\<close>

lemma late_unrendered:
  "transcripts (run clock (unrendered (map late [0..<51])) initial) = map late [1..<51]"
  by code_simp

lemma late_rendered:
  "transcripts (run clock (rendered (map late [0..<51])) initial) = late 50 # map late [1..<50]"
  by code_simp

lemma late_times:
  "getTime clock (late 0) = Some 10000"
  "getTime clock (late 50) = Some 0"
  by (simp_all add: late_def numbered_def fragment_def getTime_def clock_simps)

lemma session_log_length: "length (transcripts (run clock session_log busy)) = 3"
  by code_simp

section \<open>The claims\<close>

subsection \<open>C1: a fragment is appended exactly when it is no duplicate\<close>

text \<open>
  C1. For a \<^verbatim>\<open>transcript\<close> message carrying the fragment \<open>f\<close>: \<open>f\<close> is a duplicate exactly
  when a retained record has the same id, or the same role and the same text and a
  timestamp less than 1000 ms from that of \<open>f\<close>. A duplicate leaves the list as it is;
  any other fragment is appended, the list then being cut to its last 50 records. The
  active calls are not touched.
\<close>

theorem transcript_appended_iff_not_duplicate:
  assumes "msg_type m = Some ''transcript''" and "data m = Some f"
  shows "transcripts (onmessage parse (Inr (JsObject m)) st) =
           (if \<exists>t\<in>set (transcripts st).
                 entry_id t = entry_id f \<or>
                 (role t = role f \<and> transcript t = transcript f \<and>
                  (\<exists>x y. getTime parse t = Some x \<and> getTime parse f = Some y \<and>
                         \<bar>x - y\<bar> < 1000))
            then transcripts st
            else drop (Suc (length (transcripts st)) - 50) (transcripts st @ [f])) \<and>
         activeCalls (onmessage parse (Inr (JsObject m)) st) = activeCalls st"
proof -
  have "list_ex (same_entry parse f) (transcripts st) \<longleftrightarrow>
        (\<exists>t\<in>set (transcripts st).
           entry_id t = entry_id f \<or>
           (role t = role f \<and> transcript t = transcript f \<and>
            (\<exists>x y. getTime parse t = Some x \<and> getTime parse f = Some y \<and> \<bar>x - y\<bar> < 1000)))"
    unfolding list_ex_iff by (simp add: same_entry_iff)
  moreover have "onmessage parse (Inr (JsObject m)) st =
      st\<lparr>transcripts :=
           (if list_ex (same_entry parse f) (transcripts st) then transcripts st
            else slice_last 50 (transcripts st @ [f]))\<rparr>"
    using assms by (simp add: onmessage_transcript)
  ultimately show ?thesis
    by (cases "list_ex (same_entry parse f) (transcripts st)")
      (simp_all only: slice_last_def if_True if_False state.simps length_append list.size,
        simp_all)
qed

text \<open>
  The spec's scenario: after \<^verbatim>\<open>a1\<close>, the fragment \<^verbatim>\<open>a2\<close> with the same role and text, 500 ms
  later and under another id, is absorbed and the list keeps its length 1; \<^verbatim>\<open>a3\<close>, with
  another text, is appended.
\<close>

theorem transcript_appended_witness:
  "length (transcripts
     (onmessage clock (transcript_frame (fragment ''a2'' ''user'' ''hello'' ''1970-01-01T00:00:00.500Z''))
       (onmessage clock (transcript_frame (fragment ''a1'' ''user'' ''hello'' ''1970-01-01T00:00:00.000Z''))
          initial))) = 1 \<and>
   transcripts
     (onmessage clock (transcript_frame (fragment ''a3'' ''user'' ''help'' ''1970-01-01T00:00:00.500Z''))
       (onmessage clock (transcript_frame (fragment ''a1'' ''user'' ''hello'' ''1970-01-01T00:00:00.000Z''))
          initial)) =
     [fragment ''a1'' ''user'' ''hello'' ''1970-01-01T00:00:00.000Z'',
      fragment ''a3'' ''user'' ''help'' ''1970-01-01T00:00:00.500Z'']"
  using
    transcript_appended_iff_not_duplicate
      [of "\<lparr>msg_type = Some ''transcript'',
              data = Some (fragment ''a1'' ''user'' ''hello'' ''1970-01-01T00:00:00.000Z''),
              msg_transcripts = None, active_calls = None\<rparr>"
          "fragment ''a1'' ''user'' ''hello'' ''1970-01-01T00:00:00.000Z''" clock initial]
    transcript_appended_iff_not_duplicate
      [of "\<lparr>msg_type = Some ''transcript'',
              data = Some (fragment ''a2'' ''user'' ''hello'' ''1970-01-01T00:00:00.500Z''),
              msg_transcripts = None, active_calls = None\<rparr>"
          "fragment ''a2'' ''user'' ''hello'' ''1970-01-01T00:00:00.500Z''" clock
          "onmessage clock
             (transcript_frame (fragment ''a1'' ''user'' ''hello'' ''1970-01-01T00:00:00.000Z''))
             initial"]
    transcript_appended_iff_not_duplicate
      [of "\<lparr>msg_type = Some ''transcript'',
              data = Some (fragment ''a3'' ''user'' ''help'' ''1970-01-01T00:00:00.500Z''),
              msg_transcripts = None, active_calls = None\<rparr>"
          "fragment ''a3'' ''user'' ''help'' ''1970-01-01T00:00:00.500Z''" clock
          "onmessage clock
             (transcript_frame (fragment ''a1'' ''user'' ''hello'' ''1970-01-01T00:00:00.000Z''))
             initial"]
  by (simp add: transcript_frame_def fragment_def initial_def getTime_def clock_simps)

subsection \<open>C2: the capacity of 50\<close>

text \<open>
  C2, as amended. From a list of at most 50 records, no schedule of messages and renders
  leaves more than 50 records at any point, provided no \<^verbatim>\<open>initial_data\<close> message of the
  schedule carries more than 50 transcripts. (The \<^verbatim>\<open>initial_data\<close> case stores its
  snapshot sorted and without repeated ids, and does not cut it.)
\<close>

theorem capacity_bound:
  assumes "length (transcripts st) \<le> 50"
    and "\<forall>m ts. Inr (JsObject m) \<in> set (messages evs) \<and> msg_type m = Some ''initial_data'' \<and>
           msg_transcripts m = Some ts \<longrightarrow> length ts \<le> 50"
  shows "length (transcripts (run parse evs st)) \<le> 50 \<and>
         (\<forall>n. length (transcripts (run parse (take n evs) st)) \<le> 50)"
proof -
  have "length (transcripts (run parse (take n evs) st)) \<le> 50" for n
  proof (rule length_run [OF assms(1)])
    show "\<forall>m ts. Inr (JsObject m) \<in> set (messages (take n evs)) \<and>
            msg_type m = Some ''initial_data'' \<and> msg_transcripts m = Some ts \<longrightarrow> length ts \<le> 50"
      using assms(2) messages_take [of n evs] by blast
  qed
  with length_run [OF assms] show ?thesis by blast
qed

text \<open>
  The claim as stated fails on a single \<^verbatim>\<open>initial_data\<close> message that carries 51
  transcripts with 51 ids: all 51 are retained.
\<close>

theorem capacity_bound_counterexample:
  "\<not> length (transcripts
        (run clock [Message (initial_data_frame (map late [0..<51]) Map.empty)] initial)) \<le> 50"
  by code_simp

theorem capacity_bound_witness:
  "length (transcripts (run clock session_log busy)) \<le> 50 \<and>
   length (transcripts (run clock (take 3 session_log) busy)) \<le> 50 \<and>
   length snapshot \<le> 50 \<and> length (transcripts busy) \<le> 50 \<and>
   length (transcripts (run clock session_log busy)) = 3"
proof -
  have b: "length (transcripts busy) \<le> 50"
    by (simp add: busy_def)
  have s: "length snapshot \<le> 50"
    by (simp add: snapshot_def)
  have h: "\<forall>m ts. Inr (JsObject m) \<in> set (messages session_log) \<and>
             msg_type m = Some ''initial_data'' \<and> msg_transcripts m = Some ts \<longrightarrow> length ts \<le> 50"
    using s
    by (auto simp add: session_log_def initial_data_frame_def transcript_frame_def
          call_status_frame_def)
  from capacity_bound [OF b h, of clock] s b session_log_length show ?thesis
    by simp
qed

subsection \<open>C3: a terminal call status\<close>

text \<open>
  C3, as amended. A \<^verbatim>\<open>call_status\<close> message for call \<open>c\<close> whose session status is \<^verbatim>\<open>ended\<close>
  or \<^verbatim>\<open>failed\<close> empties the retained transcript list and stores the session under \<open>c\<close> in
  the active calls, as for any other status: it does not delete it.
\<close>

theorem terminal_call_status:
  assumes "msg_type m = Some ''call_status''" and "data m = Some d" and "call_id d = Some c"
    and "session d = Some s" and "status s = Some v" and "v = ''ended'' \<or> v = ''failed''"
  shows "transcripts (onmessage parse (Inr (JsObject m)) st) = [] \<and>
         activeCalls (onmessage parse (Inr (JsObject m)) st) = (activeCalls st)(c \<mapsto> s)"
  using assms by (auto simp add: onmessage_call_status toLowerCase_ended property_key_def)

text \<open>
  The claim as stated fails for the active call \<^verbatim>\<open>c1\<close> of \<open>busy\<close>: after its \<^verbatim>\<open>ended\<close>
  status arrives, \<^verbatim>\<open>c1\<close> is still in the active calls.
\<close>

theorem terminal_call_status_counterexample:
  "\<not> (transcripts
        (onmessage clock (call_status_frame ''c1'' (session_with ''c1'' ''ended'')) busy) = [] \<and>
      activeCalls
        (onmessage clock (call_status_frame ''c1'' (session_with ''c1'' ''ended'')) busy) ''c1'' = None)"
  by (simp add: onmessage_call_status call_status_frame_def call_data_def session_with_def
      busy_def toLowerCase_ended property_key_def)

theorem terminal_call_status_witness:
  "transcripts
     (onmessage clock (call_status_frame ''c1'' (session_with ''c1'' ''failed'')) busy) = [] \<and>
   activeCalls
     (onmessage clock (call_status_frame ''c1'' (session_with ''c1'' ''failed'')) busy) =
     [''c1'' \<mapsto> session_with ''c1'' ''failed''] \<and>
   transcripts busy \<noteq> []"
  using terminal_call_status
    [of "\<lparr>msg_type = Some ''call_status'',
            data = Some (call_data (Some ''c1'') (Some (session_with ''c1'' ''failed''))),
            msg_transcripts = None, active_calls = None\<rparr>"
        "call_data (Some ''c1'') (Some (session_with ''c1'' ''failed''))" "''c1''"
        "session_with ''c1'' ''failed''" "''failed''" clock busy]
  by (simp add: call_status_frame_def call_data_def session_with_def busy_def)

subsection \<open>C4: which records are evicted\<close>

text \<open>
  C4, as amended. Let \<open>fs\<close> be more than 50 fragments, none a duplicate of a retained
  record or of an earlier one, delivered one per \<^verbatim>\<open>transcript\<close> message under any schedule
  of renders. Then exactly 50 records remain and the fragment delivered last is one of
  them: an append evicts from the front of the list and never the fragment it appends.
  With no render between the messages the 50 records are the last 50 delivered, in
  delivery order. Where the retained records followed by \<open>fs\<close> are in ascending time
  order, the 50 records are, under every schedule, the last 50 delivered, which are then
  the newest, in ascending time order.
\<close>

theorem capacity_keeps_last_arrivals:
  assumes "messages evs = map transcript_frame fs"
    and "50 < length fs"
    and "\<forall>i<length fs. \<forall>t\<in>set (transcripts st) \<union> set (take i fs).
           \<not> same_entry parse (fs ! i) t"
  shows "length (transcripts (run parse evs st)) = 50 \<and>
         last fs \<in> set (transcripts (run parse evs st)) \<and>
         (Render \<notin> set evs \<longrightarrow> transcripts (run parse evs st) = drop (length fs - 50) fs) \<and>
         ((\<forall>t\<in>set (transcripts st) \<union> set fs. getTime parse t \<noteq> None) \<and>
          sorted (map (\<lambda>t. the (getTime parse t)) (transcripts st @ fs)) \<longrightarrow>
          transcripts (run parse evs st) = drop (length fs - 50) fs \<and>
          sorted (map (\<lambda>t. the (getTime parse t)) (transcripts (run parse evs st))))"
proof -
  have ne: "fs \<noteq> []" using assms(2) by auto
  have long: "slice_last 50 (transcripts st @ fs) = drop (length fs - 50) fs"
    using assms(2) by (intro slice_last_long) simp
  note A = append_run [OF assms(1) assms(3)]
  have 1: "length (transcripts (run parse evs st)) = 50"
    using A ne assms(2) by simp
  have 2: "last fs \<in> set (transcripts (run parse evs st))"
    using A ne by simp
  have 3: "transcripts (run parse evs st) = drop (length fs - 50) fs" if "Render \<notin> set evs"
    using A ne that long by simp
  have 4: "transcripts (run parse evs st) = drop (length fs - 50) fs \<and>
          sorted (map (\<lambda>t. the (getTime parse t)) (transcripts (run parse evs st)))"
    if v: "\<forall>t\<in>set (transcripts st) \<union> set fs. getTime parse t \<noteq> None"
      and s: "sorted (map (\<lambda>t. the (getTime parse t)) (transcripts st @ fs))"
  proof -
    have r: "transcripts (run parse evs st) = drop (length fs - 50) fs"
      using append_run_sorted [OF assms(1) assms(3) v s] ne long by simp
    have "sorted (map (\<lambda>t. the (getTime parse t)) fs)"
      using s by (simp add: sorted_append)
    then have "sorted (map (\<lambda>t. the (getTime parse t)) (drop (length fs - 50) fs))"
      by (simp only: drop_map [symmetric] sorted_wrt_drop)
    with r show ?thesis by simp
  qed
  from 1 2 3 4 show ?thesis by blast
qed

text \<open>
  The claim as stated fails on the 51 fragments of \<open>late\<close>, delivered to the empty list.
  Fragment 50, stamped 0 s, is the oldest and the claim has it evicted. With no render
  between the messages the handler keeps fragments 1 to 50, not in time order; with a
  render after every message it keeps fragment 50 and fragments 1 to 49. Either way the
  evicted record is fragment 0, stamped 10 s, and the oldest one stays.
\<close>

theorem capacity_counterexample:
  "transcripts (run clock (unrendered (map late [0..<51])) initial) = map late [1..<51] \<and>
   transcripts (run clock (rendered (map late [0..<51])) initial) = late 50 # map late [1..<50] \<and>
   getTime clock (late 0) = Some 10000 \<and> getTime clock (late 50) = Some 0 \<and>
   late 0 \<notin> set (map late [1..<51]) \<and> late 0 \<notin> set (late 50 # map late [1..<50]) \<and>
   \<not> sorted (map the (map (getTime clock) (map late [1..<51])))"
proof -
  have "late 0 \<notin> set (map late [1..<51])" "late 0 \<notin> set (late 50 # map late [1..<50])"
    by (auto simp add: late_def numbered_def fragment_def)
  moreover have "\<not> sorted (map the (map (getTime clock) (map late [1..<51])))"
    by code_simp
  ultimately show ?thesis
    using late_unrendered late_rendered late_times by simp
qed

text \<open>
  The 51 fragments of \<open>early\<close> arrive in time order: under both schedules fragments 1 to 50
  remain.
\<close>

theorem capacity_witness:
  "transcripts (run clock (rendered (map early [0..<51])) initial) = map early [1..<51] \<and>
   transcripts (run clock (unrendered (map early [0..<51])) initial) = map early [1..<51] \<and>
   length (transcripts (run clock (rendered (map early [0..<51])) initial)) = 50 \<and>
   early 50 \<in> set (transcripts (run clock (rendered (map early [0..<51])) initial))"
  using
    capacity_keeps_last_arrivals
      [of "rendered (map early [0..<51])" "map early [0..<51]" initial clock]
    capacity_keeps_last_arrivals
      [of "unrendered (map early [0..<51])" "map early [0..<51]" initial clock]
    early_fresh [of 51 clock] sorted_early [of 51]
  by (simp add: messages_rendered messages_unrendered Render_unrendered getTime_early initial_def
        drop_map)

subsection \<open>C5: the initial snapshot\<close>

text \<open>
  C5. An \<^verbatim>\<open>initial_data\<close> message whose transcripts all carry a date replaces the retained
  list by the received transcripts in ascending time order (the stable sort by time),
  keeping of each id the first record in that order and dropping the later ones, and
  replaces the active calls by the received mapping.
\<close>

theorem initial_data_replaces_state:
  assumes "msg_type m = Some ''initial_data''"
    and "msg_transcripts m = Some ts" and "active_calls m = Some calls"
    and "\<forall>t\<in>set ts. getTime parse t \<noteq> None"
  shows "transcripts (onmessage parse (Inr (JsObject m)) st) =
           nths (sort_key (\<lambda>t. the (getTime parse t)) ts)
             {i. \<forall>j<i. entry_id (sort_key (\<lambda>t. the (getTime parse t)) ts ! j) \<noteq>
                        entry_id (sort_key (\<lambda>t. the (getTime parse t)) ts ! i)} \<and>
         activeCalls (onmessage parse (Inr (JsObject m)) st) = calls"
  using assms
  by (simp add: onmessage_initial_data uniqueTranscripts_nths array_sort_sort_key)

text \<open>
  On \<open>snapshot\<close>: the record of 0 s comes first, and the second record with id \<^verbatim>\<open>b1\<close>, of
  10 s, is dropped.
\<close>

theorem initial_data_witness:
  "map (getTime clock) snapshot = [Some 5000, Some 0, Some 10000] \<and>
   nths (sort_key (\<lambda>t. the (getTime clock t)) snapshot)
     {i. \<forall>j<i. entry_id (sort_key (\<lambda>t. the (getTime clock t)) snapshot ! j) \<noteq>
                entry_id (sort_key (\<lambda>t. the (getTime clock t)) snapshot ! i)} =
     [fragment ''b1'' ''user'' ''help'' ''1970-01-01T00:00:00.000Z'',
      fragment ''b2'' ''assistant'' ''where are you'' ''1970-01-01T00:00:05.000Z''] \<and>
   transcripts
     (onmessage clock (initial_data_frame snapshot [''c2'' \<mapsto> session_with ''c2'' ''active''])
        busy) =
     [fragment ''b1'' ''user'' ''help'' ''1970-01-01T00:00:00.000Z'',
      fragment ''b2'' ''assistant'' ''where are you'' ''1970-01-01T00:00:05.000Z''] \<and>
   activeCalls
     (onmessage clock (initial_data_frame snapshot [''c2'' \<mapsto> session_with ''c2'' ''active''])
        busy) =
     [''c2'' \<mapsto> session_with ''c2'' ''active'']"
proof -
  have t: "map (getTime clock) snapshot = [Some 5000, Some 0, Some 10000]"
    by (simp add: snapshot_def getTime_def fragment_def clock_simps)
  then have v: "\<forall>t\<in>set snapshot. getTime clock t \<noteq> None"
    by (simp add: snapshot_def)
  have e: "transcripts
     (onmessage clock (initial_data_frame snapshot [''c2'' \<mapsto> session_with ''c2'' ''active''])
        busy) =
     [fragment ''b1'' ''user'' ''help'' ''1970-01-01T00:00:00.000Z'',
      fragment ''b2'' ''assistant'' ''where are you'' ''1970-01-01T00:00:05.000Z'']"
    by (simp add: initial_data_frame_def onmessage_initial_data uniqueTranscripts_def
        array_sort_def snapshot_def compare_def getTime_def fragment_def clock_simps
        filter_indexed_def upt_rec)
  from initial_data_replaces_state
    [of "\<lparr>msg_type = Some ''initial_data'', data = None, msg_transcripts = Some snapshot,
            active_calls = Some [''c2'' \<mapsto> session_with ''c2'' ''active'']\<rparr>"
        snapshot "[''c2'' \<mapsto> session_with ''c2'' ''active'']" clock busy] v e t
  show ?thesis
    by (simp add: initial_data_frame_def)
qed

subsection \<open>C6: the concrete scenario\<close>

text \<open>
  C6. The \<^verbatim>\<open>transcript\<close> message for the fragment
  \<^verbatim>\<open>{id: a1, call_id: c1, role: user, transcript: hello}\<close>, then \<^verbatim>\<open>call_status\<close> for \<^verbatim>\<open>c1\<close>
  with status \<^verbatim>\<open>ended\<close>, then \<^verbatim>\<open>transcripts_cleared\<close>, then \<^verbatim>\<open>call_removed\<close> for \<^verbatim>\<open>c1\<close>, leave
  the retained list and the active calls both empty, whatever renders come between:
  from the initial state, and from every state whose active calls are none or \<^verbatim>\<open>c1\<close> alone,
  whatever its retained list holds. On the way from the initial state the list is
  \<^verbatim>\<open>[a1]\<close> after the first message, the second empties it and puts \<^verbatim>\<open>c1\<close> into the
  active calls, the third changes nothing and the fourth takes \<^verbatim>\<open>c1\<close> out.
\<close>

theorem concrete_scenario:
  assumes "messages evs =
             [transcript_frame (fragment ''a1'' ''user'' ''hello'' T),
              call_status_frame ''c1'' s,
              bare_frame ''transcripts_cleared'',
              call_removed_frame ''c1'']"
    and "status s = Some ''ended''"
    and "dom (activeCalls st) \<subseteq> {''c1''}"
  shows "transcripts (run parse evs st) = [] \<and> activeCalls (run parse evs st) = Map.empty \<and>
         onmessage parse (transcript_frame (fragment ''a1'' ''user'' ''hello'' T)) initial =
           \<lparr>transcripts = [fragment ''a1'' ''user'' ''hello'' T], activeCalls = Map.empty\<rparr> \<and>
         onmessage parse (call_status_frame ''c1'' s)
             \<lparr>transcripts = [fragment ''a1'' ''user'' ''hello'' T], activeCalls = Map.empty\<rparr> =
           \<lparr>transcripts = [], activeCalls = [''c1'' \<mapsto> s]\<rparr> \<and>
         onmessage parse (bare_frame ''transcripts_cleared'')
             \<lparr>transcripts = [], activeCalls = [''c1'' \<mapsto> s]\<rparr> =
           \<lparr>transcripts = [], activeCalls = [''c1'' \<mapsto> s]\<rparr> \<and>
         onmessage parse (call_removed_frame ''c1'')
             \<lparr>transcripts = [], activeCalls = [''c1'' \<mapsto> s]\<rparr> = initial"
proof -
  from messages_Cons_split [OF assms(1)] obtain p0 e1 where
    0: "evs = p0 @ Message (transcript_frame (fragment ''a1'' ''user'' ''hello'' T)) # e1"
      "messages p0 = []"
      "messages e1 =
         [call_status_frame ''c1'' s, bare_frame ''transcripts_cleared'', call_removed_frame ''c1'']"
    by blast
  from messages_Cons_split [OF 0(3)] obtain p1 e2 where
    1: "e1 = p1 @ Message (call_status_frame ''c1'' s) # e2" "messages p1 = []"
      "messages e2 = [bare_frame ''transcripts_cleared'', call_removed_frame ''c1'']"
    by blast
  from messages_Cons_split [OF 1(3)] obtain p2 e3 where
    2: "e2 = p2 @ Message (bare_frame ''transcripts_cleared'') # e3" "messages p2 = []"
      "messages e3 = [call_removed_frame ''c1'']"
    by blast
  from messages_Cons_split [OF 2(3)] obtain p3 e4 where
    3: "e3 = p3 @ Message (call_removed_frame ''c1'') # e4" "messages p3 = []" "messages e4 = []"
    by blast
  define s0 where "s0 = run parse p0 st"
  define s1 where
    "s1 = run parse p1 (onmessage parse (transcript_frame (fragment ''a1'' ''user'' ''hello'' T)) s0)"
  define s2 where "s2 = run parse p2 (onmessage parse (call_status_frame ''c1'' s) s1)"
  define s3 where "s3 = run parse p3 (onmessage parse (bare_frame ''transcripts_cleared'') s2)"
  define s4 where "s4 = onmessage parse (call_removed_frame ''c1'') s3"
  have run: "run parse evs st = run parse e4 s4"
    unfolding 0(1) 1(1) 2(1) 3(1) s0_def s1_def s2_def s3_def s4_def
    by (simp add: run_append run_Cons)
  have a0: "activeCalls s0 = activeCalls st"
    unfolding s0_def using run_renders [OF 0(2), of parse st] by simp
  have a1: "activeCalls s1 = activeCalls st"
    unfolding s1_def using run_renders [OF 1(2)] a0 by (simp add: onmessage_transcript_frame)
  have a2: "activeCalls s2 = (activeCalls st)(''c1'' \<mapsto> s)"
    unfolding s2_def using run_renders [OF 2(2)] a1 assms(2)
    by (simp add: call_status_frame_def call_data_def onmessage_call_status property_key_def
        toLowerCase_ended)
  have a3: "activeCalls s3 = (activeCalls st)(''c1'' \<mapsto> s)"
    unfolding s3_def using run_renders [OF 3(2)] a2
    by (simp add: bare_frame_def onmessage_transcripts_cleared)
  have a4: "activeCalls s4 = Map.empty" "transcripts s4 = []"
    unfolding s4_def using a3 remove_only_call [OF assms(3), of s]
    by (simp_all add: call_removed_frame_def call_data_def onmessage_call_removed)
  have final: "transcripts (run parse evs st) = [] \<and> activeCalls (run parse evs st) = Map.empty"
    unfolding run using run_renders [OF 3(3), of parse s4] a4 by simp
  have i1: "onmessage parse (transcript_frame (fragment ''a1'' ''user'' ''hello'' T)) initial =
           \<lparr>transcripts = [fragment ''a1'' ''user'' ''hello'' T], activeCalls = Map.empty\<rparr>"
    by (simp add: onmessage_transcript_frame initial_def slice_last_def)
  have i2: "onmessage parse (call_status_frame ''c1'' s)
             \<lparr>transcripts = [fragment ''a1'' ''user'' ''hello'' T], activeCalls = Map.empty\<rparr> =
           \<lparr>transcripts = [], activeCalls = [''c1'' \<mapsto> s]\<rparr>"
    using assms(2)
    by (simp add: call_status_frame_def call_data_def onmessage_call_status property_key_def
        toLowerCase_ended)
  have i3: "onmessage parse (bare_frame ''transcripts_cleared'')
             \<lparr>transcripts = [], activeCalls = [''c1'' \<mapsto> s]\<rparr> =
           \<lparr>transcripts = [], activeCalls = [''c1'' \<mapsto> s]\<rparr>"
    by (simp add: bare_frame_def onmessage_transcripts_cleared)
  have i4: "onmessage parse (call_removed_frame ''c1'')
             \<lparr>transcripts = [], activeCalls = [''c1'' \<mapsto> s]\<rparr> = initial"
    by (simp add: call_removed_frame_def call_data_def onmessage_call_removed initial_def)
  from final i1 i2 i3 i4 show ?thesis by blast
qed

text \<open>
  From \<open>busy\<close>, which retains a record and holds \<^verbatim>\<open>c1\<close> as active, and from the initial
  state.
\<close>

theorem concrete_scenario_witness:
  "run clock
     [Message (transcript_frame (fragment ''a1'' ''user'' ''hello'' ''1970-01-01T00:00:00.000Z'')),
      Render,
      Message (call_status_frame ''c1'' (session_with ''c1'' ''ended'')), Render,
      Message (bare_frame ''transcripts_cleared''),
      Message (call_removed_frame ''c1''), Render] busy = initial \<and>
   status (session_with ''c1'' ''ended'') = Some ''ended'' \<and>
   dom (activeCalls busy) = {''c1''} \<and> transcripts busy \<noteq> [] \<and>
   run clock
     [Message (transcript_frame (fragment ''a1'' ''user'' ''hello'' ''1970-01-01T00:00:00.000Z'')),
      Message (call_status_frame ''c1'' (session_with ''c1'' ''ended'')),
      Message (bare_frame ''transcripts_cleared''),
      Message (call_removed_frame ''c1'')] initial = initial \<and>
   transcripts (run clock
     [Message (transcript_frame (fragment ''a1'' ''user'' ''hello'' ''1970-01-01T00:00:00.000Z''))]
     initial) = [fragment ''a1'' ''user'' ''hello'' ''1970-01-01T00:00:00.000Z''] \<and>
   activeCalls (run clock
     [Message (transcript_frame (fragment ''a1'' ''user'' ''hello'' ''1970-01-01T00:00:00.000Z'')),
      Message (call_status_frame ''c1'' (session_with ''c1'' ''ended''))]
     initial) = [''c1'' \<mapsto> session_with ''c1'' ''ended'']"
  using
    concrete_scenario
      [of "[Message (transcript_frame (fragment ''a1'' ''user'' ''hello'' ''1970-01-01T00:00:00.000Z'')),
            Render,
            Message (call_status_frame ''c1'' (session_with ''c1'' ''ended'')), Render,
            Message (bare_frame ''transcripts_cleared''),
            Message (call_removed_frame ''c1''), Render]"
          "''1970-01-01T00:00:00.000Z''" "session_with ''c1'' ''ended''" busy clock]
    concrete_scenario
      [of "[Message (transcript_frame (fragment ''a1'' ''user'' ''hello'' ''1970-01-01T00:00:00.000Z'')),
            Message (call_status_frame ''c1'' (session_with ''c1'' ''ended'')),
            Message (bare_frame ''transcripts_cleared''),
            Message (call_removed_frame ''c1'')]"
          "''1970-01-01T00:00:00.000Z''" "session_with ''c1'' ''ended''" initial clock]
  by (simp add: session_with_def initial_def busy_def state.equality run_def)

subsection \<open>C7: removal of a call\<close>

text \<open>
  C7, as amended. A \<^verbatim>\<open>call_removed\<close> message whose \<^verbatim>\<open>data\<close> carries a non-empty \<^verbatim>\<open>call_id\<close>
  \<open>c\<close> removes \<open>c\<close> from the active calls and empties the retained list. For a non-empty
  \<open>c\<close> that is not in the mapping the mapping stays as it is, nothing is thrown and the
  list is emptied all the same; handling the message a second time changes nothing more.
\<close>

theorem call_removed_frame_idempotent:
  assumes "msg_type m = Some ''call_removed''" and "data m = Some d" and "call_id d = Some c"
    and "c \<noteq> []"
  shows "transcripts (onmessage parse (Inr (JsObject m)) st) = [] \<and>
         activeCalls (onmessage parse (Inr (JsObject m)) st) = (activeCalls st)(c := None) \<and>
         dispatch parse (JsObject m) st =
           Inr (st\<lparr>activeCalls := (activeCalls st)(c := None), transcripts := []\<rparr>) \<and>
         (c \<notin> dom (activeCalls st) \<longrightarrow>
            activeCalls (onmessage parse (Inr (JsObject m)) st) = activeCalls st) \<and>
         onmessage parse (Inr (JsObject m)) (onmessage parse (Inr (JsObject m)) st) =
           onmessage parse (Inr (JsObject m)) st"
  using assms by (auto simp add: onmessage_call_removed dispatch_def on_call_removed_def)

text \<open>
  The claim as stated fails for the empty call id, which is not in the mapping of
  \<open>busy\<close>: the guard \<^verbatim>\<open>message.data?.call_id\<close> is falsy for the empty string, no setter runs
  and the retained list is not emptied.
\<close>

theorem call_removed_counterexample:
  "\<not> (transcripts (onmessage clock (call_removed_frame []) busy) = []) \<and>
   activeCalls busy [] = None"
  by (simp add: call_removed_frame_def call_data_def onmessage_call_removed busy_def)

theorem call_removed_witness:
  "transcripts (onmessage clock (call_removed_frame ''c1'') busy) = [] \<and>
   activeCalls (onmessage clock (call_removed_frame ''c1'') busy) = Map.empty \<and>
   activeCalls (onmessage clock (call_removed_frame ''c9'') busy) = activeCalls busy \<and>
   transcripts (onmessage clock (call_removed_frame ''c9'') busy) = [] \<and>
   transcripts busy \<noteq> [] \<and> activeCalls busy ''c1'' \<noteq> None \<and> activeCalls busy ''c9'' = None"
  using
    call_removed_frame_idempotent
      [of "\<lparr>msg_type = Some ''call_removed'', data = Some (call_data (Some ''c1'') None),
              msg_transcripts = None, active_calls = None\<rparr>"
          "call_data (Some ''c1'') None" "''c1''" clock busy]
    call_removed_frame_idempotent
      [of "\<lparr>msg_type = Some ''call_removed'', data = Some (call_data (Some ''c9'') None),
              msg_transcripts = None, active_calls = None\<rparr>"
          "call_data (Some ''c9'') None" "''c9''" clock busy]
  by (simp add: call_removed_frame_def call_data_def busy_def)

subsection \<open>C8: the upsert is idempotent\<close>

text \<open>
  C8. Handling the same \<^verbatim>\<open>call_status\<close> message twice in succession leaves the same
  retained list and the same active calls as handling it once.
\<close>

theorem call_status_idempotent:
  assumes "msg_type m = Some ''call_status''"
  shows "onmessage parse (Inr (JsObject m)) (onmessage parse (Inr (JsObject m)) st) =
         onmessage parse (Inr (JsObject m)) st"
  using assms by (simp add: onmessage_call_status split: option.splits)

theorem call_status_idempotent_witness:
  "onmessage clock (call_status_frame ''c2'' (session_with ''c2'' ''active''))
     (onmessage clock (call_status_frame ''c2'' (session_with ''c2'' ''active'')) busy) =
   onmessage clock (call_status_frame ''c2'' (session_with ''c2'' ''active'')) busy \<and>
   activeCalls (onmessage clock (call_status_frame ''c2'' (session_with ''c2'' ''active'')) busy)
     ''c2'' = Some (session_with ''c2'' ''active'') \<and>
   activeCalls busy ''c2'' = None"
  using call_status_idempotent
    [of "\<lparr>msg_type = Some ''call_status'',
            data = Some (call_data (Some ''c2'') (Some (session_with ''c2'' ''active''))),
            msg_transcripts = None, active_calls = None\<rparr>" clock busy]
  by (simp add: call_status_frame_def onmessage_call_status call_data_def session_with_def
        busy_def toLowerCase_ended property_key_def)

subsection \<open>C9: frames that carry nothing to handle\<close>

text \<open>
  C9. A frame that is not JSON, or parses to \<^verbatim>\<open>null\<close>, or whose type is none of the five,
  or whose type is known and whose payload is missing (\<^verbatim>\<open>transcript\<close>, \<^verbatim>\<open>call_status\<close> or
  \<^verbatim>\<open>call_removed\<close> with no \<^verbatim>\<open>data\<close>; \<^verbatim>\<open>call_status\<close> whose \<^verbatim>\<open>data\<close> has no \<^verbatim>\<open>session\<close>, or
  whose session has no \<^verbatim>\<open>status\<close>; \<^verbatim>\<open>call_removed\<close> whose \<^verbatim>\<open>data\<close> has no \<^verbatim>\<open>call_id\<close> or an
  empty one; \<^verbatim>\<open>initial_data\<close> with neither \<^verbatim>\<open>transcripts\<close> nor \<^verbatim>\<open>active_calls\<close>) leaves the retained
  list and the active calls exactly as they were. The handler returns in each case: what
  the body throws is a \<^verbatim>\<open>TypeError\<close>, which the \<^verbatim>\<open>catch\<close> takes.
\<close>

theorem malformed_frame_ignored:
  assumes "frame = Inl e \<or> frame = Inr JsNull \<or>
     (\<exists>m. frame = Inr (JsObject m) \<and>
        (msg_type m \<notin> Some ` {''initial_data'', ''transcript'', ''call_status'', ''call_removed'',
                               ''transcripts_cleared''} \<or>
         (msg_type m = Some ''transcript'' \<and> data m = None) \<or>
         (msg_type m = Some ''call_status'' \<and>
            (data m = None \<or>
             (\<exists>d. data m = Some d \<and>
                  (session d = None \<or> (\<exists>s. session d = Some s \<and> status s = None))))) \<or>
         (msg_type m = Some ''call_removed'' \<and>
            (data m = None \<or>
             (\<exists>d. data m = Some d \<and> (call_id d = None \<or> call_id d = Some [])))) \<or>
         (msg_type m = Some ''initial_data'' \<and> msg_transcripts m = None \<and> active_calls m = None)))"
  shows "onmessage parse frame st = st \<and>
         (\<forall>v. frame = Inr v \<longrightarrow> dispatch parse v st = Inr st \<or> dispatch parse v st = Inl TypeError)"
proof -
  have 1: "onmessage parse frame st = st"
    using assms
    apply (elim disjE exE conjE)
    apply (simp_all add: onmessage_syntax_error onmessage_null onmessage_unknown
        onmessage_transcript onmessage_call_status onmessage_call_removed onmessage_initial_data)
    done
  have 2: "dispatch parse v st = Inr st \<or> dispatch parse v st = Inl TypeError"
    if "frame = Inr v" for v
  proof (cases "dispatch parse v st")
    case (Inl err)
    then show ?thesis using dispatch_throws by blast
  next
    case (Inr st')
    then show ?thesis using 1 that by (simp add: onmessage_def)
  qed
  from 1 2 show ?thesis by blast
qed

theorem malformed_frame_witness:
  "onmessage clock (Inl SyntaxError) busy = busy \<and>
   onmessage clock (bare_frame ''ping'') busy = busy \<and>
   onmessage clock (bare_frame ''transcript'') busy = busy \<and>
   onmessage clock
     (Inr (JsObject \<lparr>msg_type = Some ''call_removed'', data = Some (call_data None None),
                      msg_transcripts = None, active_calls = None\<rparr>)) busy = busy \<and>
   onmessage clock
     (Inr (JsObject \<lparr>msg_type = Some ''call_status'', data = Some (call_data (Some ''c1'') None),
                      msg_transcripts = None, active_calls = None\<rparr>)) busy = busy \<and>
   transcripts busy \<noteq> [] \<and> activeCalls busy ''c1'' \<noteq> None"
  using
    malformed_frame_ignored [of "Inl SyntaxError" SyntaxError clock busy]
    malformed_frame_ignored [of "bare_frame ''ping''" SyntaxError clock busy]
    malformed_frame_ignored [of "bare_frame ''transcript''" SyntaxError clock busy]
    malformed_frame_ignored
      [of "Inr (JsObject \<lparr>msg_type = Some ''call_removed'', data = Some (call_data None None),
                      msg_transcripts = None, active_calls = None\<rparr>)" SyntaxError clock busy]
    malformed_frame_ignored
      [of "Inr (JsObject \<lparr>msg_type = Some ''call_status'',
                      data = Some (call_data (Some ''c1'') None),
                      msg_transcripts = None, active_calls = None\<rparr>)" SyntaxError clock busy]
  by (simp add: bare_frame_def call_data_def busy_def)

subsection \<open>C10: clearing the transcripts\<close>

text \<open>
  C10. A \<^verbatim>\<open>transcripts_cleared\<close> message empties the retained transcript list and leaves
  the active calls as they were.
\<close>

theorem transcripts_cleared_frame:
  assumes "msg_type m = Some ''transcripts_cleared''"
  shows "transcripts (onmessage parse (Inr (JsObject m)) st) = [] \<and>
         activeCalls (onmessage parse (Inr (JsObject m)) st) = activeCalls st"
  using assms by (simp add: onmessage_transcripts_cleared)

theorem transcripts_cleared_witness:
  "transcripts (onmessage clock (bare_frame ''transcripts_cleared'') busy) = [] \<and>
   activeCalls (onmessage clock (bare_frame ''transcripts_cleared'') busy) = activeCalls busy \<and>
   transcripts busy \<noteq> []"
  using transcripts_cleared_frame
    [of "\<lparr>msg_type = Some ''transcripts_cleared'', data = None,
            msg_transcripts = None, active_calls = None\<rparr>" clock busy]
  by (simp add: bare_frame_def busy_def)

end
